theory Spec2Isabelle
  imports Main "HOL-Library.Stream" "HOL-Library.Finite_Map" "HOL-Library.Multiset"
begin

section \<open>Strings, runes and the library functions the game calls\<close>

text \<open>
  A Go string is read here as the sequence of runes (code points) that ranging over it
  yields; a byte that is not valid UTF-8 is the rune U+FFFD, as in \<^verbatim>\<open>strings.Map\<close>,
  \<^verbatim>\<open>[]rune(s)\<close> and the \<^verbatim>\<open>regexp\<close> package.
\<close>

type_synonym rune = nat
type_synonym gostring = "rune list"

definition runes :: "string \<Rightarrow> gostring" where
  "runes s = map of_char s"

text \<open>
  \<^verbatim>\<open>unicode.ToLower\<close>. On ASCII it maps \<^verbatim>\<open>A..Z\<close> to \<^verbatim>\<open>a..z\<close>; beyond ASCII it reads the
  case table of package \<^verbatim>\<open>unicode\<close>. The definition follows the table up to U+00FF
  (U+00C0..U+00DE without U+00D7 go 32 up) and in its two entries whose lowercase is an
  ASCII letter: U+0130 (to \<^verbatim>\<open>i\<close>) and U+212A, the Kelvin sign (to \<^verbatim>\<open>k\<close>). Every other rune
  from U+0100 on has a lowercase beyond ASCII, which \<^verbatim>\<open>regNonAlphaNum\<close> deletes whatever it
  is; it is left in place here, and nothing below depends on which rune it becomes.
\<close>

definition unicode_ToLower :: "rune \<Rightarrow> rune" where
  "unicode_ToLower r =
     (if r \<le> 127 then (if 65 \<le> r \<and> r \<le> 90 then r + 32 else r)
      else if (192 \<le> r \<and> r \<le> 214) \<or> (216 \<le> r \<and> r \<le> 222) then r + 32
      else if r = 304 then 105
      else if r = 8490 then 107
      else r)"

definition strings_ToLower :: "gostring \<Rightarrow> gostring" where
  "strings_ToLower s = map unicode_ToLower s"

text \<open>\<^verbatim>\<open>unicode.IsSpace\<close>: the Latin-1 spaces and the runes with property White_Space.\<close>

definition unicode_IsSpace :: "rune \<Rightarrow> bool" where
  "unicode_IsSpace r =
     ((9 \<le> r \<and> r \<le> 13) \<or> r = 32 \<or> r = 133 \<or> r = 160 \<or> r = 5760
      \<or> (8192 \<le> r \<and> r \<le> 8202) \<or> r = 8232 \<or> r = 8233 \<or> r = 8239
      \<or> r = 8287 \<or> r = 12288)"

definition strings_TrimSpace :: "gostring \<Rightarrow> gostring" where
  "strings_TrimSpace s = rev (dropWhile unicode_IsSpace (rev (dropWhile unicode_IsSpace s)))"

text \<open>The character class \<^verbatim>\<open>[a-zA-Z0-9]\<close>, whose complement \<^verbatim>\<open>regNonAlphaNum\<close> matches.\<close>

definition isAlphaNum :: "rune \<Rightarrow> bool" where
  "isAlphaNum r = ((97 \<le> r \<and> r \<le> 122) \<or> (65 \<le> r \<and> r \<le> 90) \<or> (48 \<le> r \<and> r \<le> 57))"

text \<open>\<^verbatim>\<open>regNonAlphaNum.ReplaceAllString(s, "")\<close>: every run of runes outside the class goes.\<close>

definition regNonAlphaNum_ReplaceAll_empty :: "gostring \<Rightarrow> gostring" where
  "regNonAlphaNum_ReplaceAll_empty s = filter isAlphaNum s"

definition normalizeAnswer :: "gostring \<Rightarrow> gostring" where
  "normalizeAnswer s =
     (let s1 = strings_ToLower s;
          s2 = strings_TrimSpace s1;
          s3 = regNonAlphaNum_ReplaceAll_empty s2
      in s3)"


text \<open>The verb \<^verbatim>\<open>%d\<close> of \<^verbatim>\<open>fmt.Sprintf\<close> on a non-negative number.\<close>

function decimal :: "nat \<Rightarrow> gostring" where
  "decimal n = (if n < 10 then [48 + n] else decimal (n div 10) @ [48 + n mod 10])"
  by pat_completeness auto
termination
  by (relation "measure id") auto

declare decimal.simps [simp del]

text \<open>
  \<^verbatim>\<open>rand.Intn(n)\<close> for \<open>n > 0\<close>: the generator is the stream of its raw outputs, and the
  draw is the head reduced into \<open>[0, n)\<close>. For \<open>n \<le> 0\<close> Go panics; each caller below
  writes that branch where its argument can be 0.
\<close>

definition Intn :: "nat stream \<Rightarrow> nat \<Rightarrow> nat \<times> nat stream" where
  "Intn r n = (shd r mod n, stl r)"

section \<open>Questions and their source\<close>

record question =
  Category :: gostring
  Question :: gostring
  Answer :: gostring
  Money :: gostring
  Date :: gostring
  Episode :: int

text \<open>
  \<^verbatim>\<open>QuestionSource\<close> is an interface. A source is the script of what its successive
  \<^verbatim>\<open>Next\<close> calls return: a question or an error other than \<^verbatim>\<open>io.EOF\<close>; at the end of
  the script \<^verbatim>\<open>Next\<close> returns \<^verbatim>\<open>io.EOF\<close>, as often as it is called.
\<close>

datatype src_event = Yield question | Fail

datatype next_result = NextOk question | NextEOF | NextErr

fun Next :: "src_event list \<Rightarrow> next_result \<times> src_event list" where
  "Next [] = (NextEOF, [])"
| "Next (Yield q # rest) = (NextOk q, rest)"
| "Next (Fail # rest) = (NextErr, rest)"

section \<open>The game\<close>

datatype timer = Armed | Stopped | Fired

text \<open>\<^verbatim>\<open>(*time.Timer).Stop\<close>: a pending timer is cancelled; one that fired or was stopped stays.\<close>

fun timer_Stop :: "timer \<Rightarrow> timer" where
  "timer_Stop Armed = Stopped"
| "timer_Stop t = t"

datatype panic = IntnInvalidArgument | IndexOutOfRange

definition HintCost :: int where "HintCost = 50"
definition MaxHints :: int where "MaxHints = 3"

text \<open>
  The fields of \<^verbatim>\<open>Game\<close>. The two mutexes serialise the methods, each of which is one
  function here; the scoreboard is a file-backed store of its own and \<^verbatim>\<open>AnswerGiven\<close> is
  the channel whose receptions are the events of the game loop below.
  \<^verbatim>\<open>QuestionTimer\<close> is a pointer: \<open>timers\<close> holds the timers that \<^verbatim>\<open>time.AfterFunc\<close> has
  made so far, each at its address, and \<open>QuestionTimer\<close> is \<open>None\<close> for \<^verbatim>\<open>nil\<close> or the
  address of one of them. A timer stays in \<open>timers\<close>, and fires if it is pending, whether
  or not the game still points to it.
\<close>

record game =
  questionSource :: "src_event list"
  questionBuffer :: "question list"
  CurrentQuestion :: "question option"
  rand :: "nat stream"
  hintCount :: int
  hintMask :: "rune list"
  IsPlaying :: bool
  GameChannel :: gostring
  QuestionTimer :: "nat option"
  timers :: "timer list"
  nextVotes :: "(gostring, bool) fmap"
  NextVoteThreshold :: int

function fillQuestionBufferUnlocked :: "game \<Rightarrow> game" where
  "fillQuestionBufferUnlocked g =
     (if length (questionBuffer g) < 3 then
        (case Next (questionSource g) of
           (NextEOF, src') \<Rightarrow> g\<lparr>questionSource := src'\<rparr>
         | (NextErr, src') \<Rightarrow> g\<lparr>questionSource := src'\<rparr>
         | (NextOk q, src') \<Rightarrow>
             fillQuestionBufferUnlocked
               (g\<lparr>questionSource := src', questionBuffer := questionBuffer g @ [q]\<rparr>))
      else g)"
  by pat_completeness auto
termination
  apply (relation "measure (\<lambda>g. length (questionSource g))")
   apply simp
  subgoal for g
    by (cases "questionSource g" rule: Next.cases) auto
  done

declare fillQuestionBufferUnlocked.simps [simp del]

definition fillQuestionBuffer :: "game \<Rightarrow> game" where
  "fillQuestionBuffer g = fillQuestionBufferUnlocked g"

definition NewGame :: "src_event list \<Rightarrow> gostring \<Rightarrow> nat stream \<Rightarrow> game" where
  "NewGame qs channel seed =
     fillQuestionBuffer
       \<lparr>questionSource = qs, questionBuffer = [], CurrentQuestion = None, rand = seed,
        hintCount = 0, hintMask = [], IsPlaying = False, GameChannel = channel,
        QuestionTimer = None, timers = [], nextVotes = fmempty, NextVoteThreshold = 3\<rparr>"

text \<open>
  \<^verbatim>\<open>StartRound\<close>. \<^verbatim>\<open>Intn\<close> is reached with a non-empty buffer only. The goroutine
  \<^verbatim>\<open>go g.fillQuestionBuffer()\<close> that a successful call launches runs at some later
  moment, under the buffer's mutex: it is the separate step \<open>fillQuestionBuffer\<close>.
\<close>

definition StartRound :: "game \<Rightarrow> question option \<times> game" where
  "StartRound g =
     (let g1 = (if length (questionBuffer g) = 0 then fillQuestionBufferUnlocked g else g)
      in if length (questionBuffer g1) = 0 then (None, g1)
         else
           let (idx, r') = Intn (rand g1) (length (questionBuffer g1));
               q = questionBuffer g1 ! idx;
               g2 = g1\<lparr>rand := r',
                       questionBuffer := take idx (questionBuffer g1) @ drop (idx + 1) (questionBuffer g1)\<rparr>;
               g3 = g2\<lparr>CurrentQuestion := Some q\<rparr>
           in (Some q, g3))"

definition CheckAnswer :: "game \<Rightarrow> gostring \<Rightarrow> bool" where
  "CheckAnswer g answer =
     (case CurrentQuestion g of
        None \<Rightarrow> False
      | Some q \<Rightarrow>
          (let normalizedAttempt = normalizeAnswer answer;
               normalizedCorrect = normalizeAnswer (Answer q)
           in normalizedAttempt = normalizedCorrect))"

definition GetCurrentQuestion :: "game \<Rightarrow> question option" where
  "GetCurrentQuestion g = CurrentQuestion g"

text \<open>
  \<^verbatim>\<open>ClearCurrentQuestion\<close>. \<^verbatim>\<open>g.QuestionTimer.Stop()\<close> acts on the timer that
  \<open>QuestionTimer\<close> points to, which is always one of \<open>timers\<close>; the pointer itself
  stays.
\<close>

definition ClearCurrentQuestion :: "game \<Rightarrow> game" where
  "ClearCurrentQuestion g =
     g\<lparr>CurrentQuestion := None, hintCount := 0, hintMask := [], nextVotes := fmempty,
       timers := (case QuestionTimer g of
                    None \<Rightarrow> timers g
                  | Some t \<Rightarrow> (timers g)[t := timer_Stop (timers g ! t)])\<rparr>"

definition SetPlaying :: "game \<Rightarrow> bool \<Rightarrow> game" where
  "SetPlaying g playing = g\<lparr>IsPlaying := playing\<rparr>"

definition GetPlaying :: "game \<Rightarrow> bool" where
  "GetPlaying g = IsPlaying g"


text \<open>
  The first loop of \<^verbatim>\<open>GetHint\<close>: up to five draws, stopping at the first one that
  lands on an underscore. \<^verbatim>\<open>Intn\<close> panics on an empty answer, and indexing the mask
  panics when the draw is beyond its end.
\<close>

fun tryReveal :: "nat \<Rightarrow> rune list \<Rightarrow> rune list \<Rightarrow> nat stream
    \<Rightarrow> panic + (bool \<times> rune list \<times> nat stream)" where
  "tryReveal 0 answer msk r = Inr (False, msk, r)"
| "tryReveal (Suc n) answer msk r =
     (if length answer = 0 then Inl IntnInvalidArgument
      else
        let (idx, r') = Intn r (length answer)
        in if length msk \<le> idx then Inl IndexOutOfRange
           else if msk ! idx = 95 then Inr (True, msk[idx := answer ! idx], r')
           else tryReveal n answer msk r')"

text \<open>The index of the first underscore, which the second loop of \<^verbatim>\<open>GetHint\<close> looks for.\<close>

fun firstUnderscore :: "rune list \<Rightarrow> nat option" where
  "firstUnderscore [] = None"
| "firstUnderscore (r # rs) =
     (if r = 95 then Some 0 else map_option Suc (firstUnderscore rs))"

definition revealFirst :: "rune list \<Rightarrow> rune list \<Rightarrow> panic + (bool \<times> rune list)" where
  "revealFirst answer msk =
     (case firstUnderscore msk of
        None \<Rightarrow> Inr (False, msk)
      | Some i \<Rightarrow>
          if length answer \<le> i then Inl IndexOutOfRange
          else Inr (True, msk[i := answer ! i]))"

definition initialMask :: "rune list \<Rightarrow> rune list" where
  "initialMask answer = map (\<lambda>r. if r = 32 then 32 else 95) answer"

definition msgNoQuestion :: gostring where
  "msgNoQuestion = runes ''No question is currently active.''"

definition msgMaxHints :: gostring where
  "msgMaxHints =
     runes ''Maximum hints ('' @ decimal (nat MaxHints) @ runes '') reached for this question.''"

definition msgNoMoreChars :: gostring where
  "msgNoMoreChars = runes ''No more characters to reveal for a hint.''"

definition GetHint :: "game \<Rightarrow> panic + ((gostring \<times> bool) \<times> game)" where
  "GetHint g =
     (case CurrentQuestion g of
        None \<Rightarrow> Inr ((msgNoQuestion, False), g)
      | Some q \<Rightarrow>
          if hintCount g \<ge> MaxHints then Inr ((msgMaxHints, False), g)
          else
            let answer = strings_TrimSpace (Answer q);
                mask0 = (if length (hintMask g) = 0 then initialMask answer else hintMask g)
            in case tryReveal 5 answer mask0 (rand g) of
                 Inl p \<Rightarrow> Inl p
               | Inr (revealed1, mask1, r') \<Rightarrow>
                   (case (if \<not> revealed1 then revealFirst answer mask1
                          else Inr (revealed1, mask1)) of
                      Inl p \<Rightarrow> Inl p
                    | Inr (revealed, mask2) \<Rightarrow>
                        if revealed
                        then Inr ((mask2, True),
                                  g\<lparr>rand := r', hintMask := mask2, hintCount := hintCount g + 1\<rparr>)
                        else Inr ((msgNoMoreChars, False), g\<lparr>rand := r', hintMask := mask2\<rparr>)))"

definition AddNextVote :: "game \<Rightarrow> gostring \<Rightarrow> (int \<times> int \<times> bool) \<times> game" where
  "AddNextVote g user =
     (case CurrentQuestion g of
        None \<Rightarrow> ((0, 0, False), g)
      | Some q \<Rightarrow>
          if user |\<in>| fmdom (nextVotes g)
          then ((int (fcard (fmdom (nextVotes g))), NextVoteThreshold g, False), g)
          else
            let g' = g\<lparr>nextVotes := fmupd user True (nextVotes g)\<rparr>;
                currentVotes = int (fcard (fmdom (nextVotes g')))
            in if currentVotes \<ge> NextVoteThreshold g'
               then ((currentVotes, NextVoteThreshold g', True), g')
               else ((currentVotes, NextVoteThreshold g', False), g'))"

section \<open>Continuous play\<close>

text \<open>
  What \<^verbatim>\<open>askQuestion\<close> and \<^verbatim>\<open>gameLoop\<close> work on: the game, the messages handed to
  \<^verbatim>\<open>ircClient.Privmsg\<close> (target and text, oldest first), the loop's
  \<^verbatim>\<open>nextQuestionTimer\<close> (the delay in seconds it is armed for, or \<open>None\<close> when it is
  stopped or has fired) and whether the loop has returned.
\<close>

record world =
  triviaGame :: game
  privmsgs :: "(gostring \<times> gostring) list"
  nextQuestionTimer :: "nat option"
  loopReturned :: bool

definition Privmsg :: "world \<Rightarrow> gostring \<Rightarrow> gostring \<Rightarrow> world" where
  "Privmsg w target message = w\<lparr>privmsgs := privmsgs w @ [(target, message)]\<rparr>"

definition msgNoMoreQuestions :: gostring where
  "msgNoMoreQuestions = runes ''No more questions left! Reset the game or load more questions.''"

definition msgQuestion :: "question \<Rightarrow> gostring" where
  "msgQuestion q = runes ''Category: '' @ Category q @ runes '' - Question: '' @ Question q"

text \<open>
  \<^verbatim>\<open>askQuestion\<close>. \<^verbatim>\<open>time.AfterFunc(30*time.Second, ...)\<close> makes a new pending timer
  and \<^verbatim>\<open>QuestionTimer\<close> is pointed to it; the timer it pointed to before is not touched.
\<close>

definition askQuestion :: "world \<Rightarrow> world" where
  "askQuestion w =
     (case StartRound (triviaGame w) of
        (None, g') \<Rightarrow>
          (let w1 = Privmsg (w\<lparr>triviaGame := g'\<rparr>) (GameChannel g') msgNoMoreQuestions
           in w1\<lparr>triviaGame := SetPlaying (triviaGame w1) False\<rparr>)
      | (Some q, g') \<Rightarrow>
          (let w1 = Privmsg (w\<lparr>triviaGame := g'\<rparr>) (GameChannel g') (msgQuestion q)
           in w1\<lparr>triviaGame :=
                  (triviaGame w1)\<lparr>QuestionTimer := Some (length (timers (triviaGame w1))),
                                  timers := timers (triviaGame w1) @ [Armed]\<rparr>\<rparr>))"

definition msgTimesUp :: "question \<Rightarrow> gostring" where
  "msgTimesUp q = runes ''Time's up! The answer was: '' @ Answer q"

text \<open>
  The function that \<^verbatim>\<open>askQuestion\<close> hands to \<^verbatim>\<open>time.AfterFunc\<close>, run when the timer at
  address \<open>t\<close> fires (which only a pending timer does). The boolean tells whether it
  ends with \<^verbatim>\<open>triviaGame.AnswerGiven <- false\<close>.
\<close>

definition questionTimeout :: "world \<Rightarrow> nat \<Rightarrow> world \<times> bool" where
  "questionTimeout w t =
     (if t < length (timers (triviaGame w)) \<and> timers (triviaGame w) ! t = Armed
      then
        let w0 = w\<lparr>triviaGame := (triviaGame w)\<lparr>timers := (timers (triviaGame w))[t := Fired]\<rparr>\<rparr>
        in case GetCurrentQuestion (triviaGame w0) of
             None \<Rightarrow> (w0, False)
           | Some q \<Rightarrow>
               let w1 = Privmsg w0 (GameChannel (triviaGame w0)) (msgTimesUp q);
                   w2 = w1\<lparr>triviaGame := ClearCurrentQuestion (triviaGame w1)\<rparr>
               in (w2, GetPlaying (triviaGame w2))
      else (w, False))"

text \<open>
  The three cases of the \<^verbatim>\<open>select\<close> in \<^verbatim>\<open>gameLoop\<close>, one event each. The timer's
  channel delivers only while the timer is armed, and delivering disarms it.
\<close>

datatype event = TimerC | AnswerGivenRecv bool | StopChan

definition nextQuestionDelay :: nat where "nextQuestionDelay = 5"

fun gameLoop_case :: "world \<Rightarrow> event \<Rightarrow> world" where
  "gameLoop_case w TimerC =
     (let w0 = w\<lparr>nextQuestionTimer := None\<rparr>
      in if GetPlaying (triviaGame w0)
         then (askQuestion w0)\<lparr>nextQuestionTimer := Some 45\<rparr>
         else w0)"
| "gameLoop_case w (AnswerGivenRecv answered) =
     (if GetPlaying (triviaGame w)
      then (if answered then w\<lparr>nextQuestionTimer := Some nextQuestionDelay\<rparr>
            else w\<lparr>nextQuestionTimer := Some nextQuestionDelay\<rparr>)
      else w)"
| "gameLoop_case w StopChan = w\<lparr>nextQuestionTimer := None, loopReturned := True\<rparr>"

definition ready :: "world \<Rightarrow> event \<Rightarrow> bool" where
  "ready w e = (\<not> loopReturned w \<and> (e = TimerC \<longrightarrow> nextQuestionTimer w \<noteq> None))"

text \<open>
  The loop on a sequence of events offered to it: an event that the \<^verbatim>\<open>select\<close> cannot
  take (the timer's when the timer is not armed, any after the loop has returned) is passed
  over.
\<close>

fun gameLoop :: "world \<Rightarrow> event list \<Rightarrow> world" where
  "gameLoop w [] = w"
| "gameLoop w (e # es) = (if ready w e then gameLoop (gameLoop_case w e) es else gameLoop w es)"

definition gameLoop_init :: "game \<Rightarrow> (gostring \<times> gostring) list \<Rightarrow> world" where
  "gameLoop_init g out =
     \<lparr>triviaGame = g, privmsgs = out, nextQuestionTimer = None, loopReturned = False\<rparr>"


section \<open>Successive calls\<close>

text \<open>How many of \<open>n\<close> successive calls of \<open>GetHint\<close> grant a hint; a panic ends the run.\<close>

fun hintsGranted :: "nat \<Rightarrow> game \<Rightarrow> nat" where
  "hintsGranted 0 g = 0"
| "hintsGranted (Suc n) g =
     (case GetHint g of
        Inl p \<Rightarrow> 0
      | Inr ((hint, granted), g') \<Rightarrow> (if granted then 1 else 0) + hintsGranted n g')"

text \<open>
  What happens to the game between the commands of the dispatcher: a call of
  \<open>StartRound\<close>, or the run of a refill goroutine that an earlier \<open>StartRound\<close> launched.
  \<open>play\<close> collects what the calls of \<open>StartRound\<close> return.
\<close>

datatype action = DoStartRound | DoRefill

fun play :: "game \<Rightarrow> action list \<Rightarrow> question option list" where
  "play g [] = []"
| "play g (DoRefill # acts) = play (fillQuestionBuffer g) acts"
| "play g (DoStartRound # acts) = (case StartRound g of (res, g') \<Rightarrow> res # play g' acts)"

section \<open>Variants of an answer\<close>







section \<open>Example data\<close>

definition exQuestion :: "string \<Rightarrow> string \<Rightarrow> question" where
  "exQuestion q a =
     \<lparr>Category = runes ''Test'', Question = runes q, Answer = runes a,
      Money = [], Date = [], Episode = 0\<rparr>"

definition exParis :: question where "exParis = exQuestion ''Capital of France?'' ''Paris''"
definition exA :: question where "exA = exQuestion ''Q1'' ''A1''"
definition exB :: question where "exB = exQuestion ''Q2'' ''A2''"
definition exC :: question where "exC = exQuestion ''Q3'' ''A3''"
definition exD :: question where "exD = exQuestion ''Q4'' ''A4''"

definition exIdle :: game where
  "exIdle = NewGame [] (runes ''#testchannel'') (sconst 0)"

text \<open>
  Two questions asked in a row with no clear in between, then the round cleared.
\<close>

definition exTwoAsked :: world where
  "exTwoAsked =
     askQuestion (askQuestion (gameLoop_init
       (NewGame [Yield exParis, Yield exA, Yield exB] (runes ''#testchannel'') (sconst 0)) []))"

definition exCleared :: world where
  "exCleared = exTwoAsked\<lparr>triviaGame := ClearCurrentQuestion (triviaGame exTwoAsked)\<rparr>"

definition exVoting :: game where
  "exVoting = \<lparr>questionSource = [], questionBuffer = [exB], CurrentQuestion = Some exA,
        rand = sconst 0, hintCount = 0, hintMask = [], IsPlaying = False,
        GameChannel = runes ''#testchannel'', QuestionTimer = None, timers = [],
        nextVotes = fmempty, NextVoteThreshold = 2\<rparr>"

definition exAsking :: "question \<Rightarrow> game" where
  "exAsking q = \<lparr>questionSource = [], questionBuffer = [], CurrentQuestion = Some q,
        rand = sconst 0, hintCount = 0, hintMask = [], IsPlaying = False,
        GameChannel = runes ''#testchannel'', QuestionTimer = None, timers = [],
        nextVotes = fmempty, NextVoteThreshold = 3\<rparr>"

definition exKelvin :: question where
  "exKelvin = \<lparr>Category = runes ''Units'', Question = runes ''Symbol of the kelvin?'',
      Answer = [8490], Money = [], Date = [], Episode = 0\<rparr>"

definition exUnderscore :: question where
  "exUnderscore = exQuestion ''Which identifier joins A and B with an underscore?'' ''A_B''"


definition exDots :: question where
  "exDots = exQuestion ''Morse code for S?'' ''...''"

text \<open>
  A round that is replaced: two questions, the first one asked, one hint taken and one
  skip vote cast, then \<open>StartRound\<close> again.
\<close>

definition exRound1 :: game where
  "exRound1 = snd (StartRound (NewGame [Yield exParis, Yield exA] (runes ''#testchannel'') (sconst 0)))"

definition exHinted :: game where
  "exHinted = (case GetHint exRound1 of Inr (_, g) \<Rightarrow> g | Inl _ \<Rightarrow> exRound1)"

definition exVoted :: game where
  "exVoted = snd (AddNextVote exHinted (runes ''user1''))"

definition exPlayingDry :: world where
  "exPlayingDry = (gameLoop_init (SetPlaying exIdle True) [])\<lparr>nextQuestionTimer := Some 5\<rparr>"


definition exPlayingBusyDry :: world where
  "exPlayingBusyDry = (gameLoop_init (SetPlaying (exAsking exA) True) [])\<lparr>nextQuestionTimer := Some 45\<rparr>"


section \<open>Facts about the example data\<close>

lemma exIdle_eq:
  "exIdle = \<lparr>questionSource = [], questionBuffer = [], CurrentQuestion = None, rand = sconst 0,
        hintCount = 0, hintMask = [], IsPlaying = False, GameChannel = runes ''#testchannel'',
        QuestionTimer = None, timers = [], nextVotes = fmempty, NextVoteThreshold = 3\<rparr>"
  by (simp add: exIdle_def NewGame_def fillQuestionBuffer_def fillQuestionBufferUnlocked.simps)

section \<open>Operations without an active question\<close>

text \<open>
  C9. When no question is active, \<open>CheckAnswer\<close> returns false for every submission,
  \<open>GetHint\<close> returns the no-active-question message with granted = false and does not
  panic, and \<open>AddNextVote\<close> returns (0, 0, false) for every user; \<open>GetHint\<close> and
  \<open>AddNextVote\<close> hand back the state they were given, and \<open>CheckAnswer\<close> has none to
  change.
\<close>

theorem no_active_question_denies:
  assumes "CurrentQuestion g = None"
  shows "CheckAnswer g submission = False
       \<and> GetHint g = Inr ((msgNoQuestion, False), g)
       \<and> AddNextVote g user = ((0, 0, False), g)"
  using assms by (simp add: CheckAnswer_def GetHint_def AddNextVote_def)

theorem no_active_question_denies_witness:
  "CurrentQuestion exIdle = None
   \<and> CheckAnswer exIdle (runes ''anything'') = False
   \<and> GetHint exIdle = Inr ((runes ''No question is currently active.'', False), exIdle)
   \<and> AddNextVote exIdle (runes ''userX'') = ((0, 0, False), exIdle)"
proof -
  have h: "CurrentQuestion exIdle = None" by (simp add: exIdle_eq)
  from no_active_question_denies [OF h, of "runes ''anything''" "runes ''userX''"] h
  show ?thesis by (simp add: msgNoQuestion_def)
qed

section \<open>Clearing the round\<close>

lemma fill_keeps_votes:
  "nextVotes (fillQuestionBufferUnlocked h) = nextVotes h
   \<and> NextVoteThreshold (fillQuestionBufferUnlocked h) = NextVoteThreshold h"
  by (induction h rule: fillQuestionBufferUnlocked.induct)
     (subst (1 2) fillQuestionBufferUnlocked.simps, auto split: prod.splits next_result.splits)

text \<open>
  What \<open>ClearCurrentQuestion\<close> does in every state: no question is active afterwards, the
  hint counter is 0, the hint mask and the skip votes are empty, the timer that
  \<open>QuestionTimer\<close> points to is not pending, and every other timer is as it was. A vote
  cast then is answered as with no question, and a vote cast after the next successful
  \<open>StartRound\<close> is the first one, whoever voted before the clear.
\<close>

lemma ClearCurrentQuestion_resets:
  "GetCurrentQuestion (ClearCurrentQuestion g) = None
   \<and> hintCount (ClearCurrentQuestion g) = 0
   \<and> hintMask (ClearCurrentQuestion g) = []
   \<and> nextVotes (ClearCurrentQuestion g) = fmempty
   \<and> length (timers (ClearCurrentQuestion g)) = length (timers g)
   \<and> (\<forall>t < length (timers g).
         timers (ClearCurrentQuestion g) ! t
           = (if QuestionTimer g = Some t then timer_Stop (timers g ! t) else timers g ! t))
   \<and> AddNextVote (ClearCurrentQuestion g) user = ((0, 0, False), ClearCurrentQuestion g)
   \<and> (\<forall>q g'. StartRound (ClearCurrentQuestion g) = (Some q, g') \<longrightarrow>
         AddNextVote g' user =
           ((1, NextVoteThreshold g, NextVoteThreshold g \<le> 1),
            g'\<lparr>nextVotes := fmupd user True fmempty\<rparr>))"
proof -
  let ?c = "ClearCurrentQuestion g"
  have tm: "length (timers ?c) = length (timers g)
     \<and> (\<forall>t < length (timers g).
         timers ?c ! t = (if QuestionTimer g = Some t then timer_Stop (timers g ! t) else timers g ! t))"
    by (cases "QuestionTimer g") (auto simp: ClearCurrentQuestion_def nth_list_update)
  have start: "\<forall>q g'. StartRound ?c = (Some q, g') \<longrightarrow>
         AddNextVote g' user =
           ((1, NextVoteThreshold g, NextVoteThreshold g \<le> 1),
            g'\<lparr>nextVotes := fmupd user True fmempty\<rparr>)"
    by (auto simp: StartRound_def Let_def AddNextVote_def fill_keeps_votes ClearCurrentQuestion_def
          fcard_finsert_if fcard_fempty split: if_splits prod.splits)
  have rest: "GetCurrentQuestion ?c = None \<and> hintCount ?c = 0 \<and> hintMask ?c = []
      \<and> nextVotes ?c = fmempty \<and> AddNextVote ?c user = ((0, 0, False), ?c)"
    by (simp add: GetCurrentQuestion_def AddNextVote_def) (simp add: ClearCurrentQuestion_def)
  from tm start rest show ?thesis by blast
qed

lemma exTwoAsked_eq:
  "exTwoAsked =
     \<lparr>triviaGame =
        \<lparr>questionSource = [], questionBuffer = [exB], CurrentQuestion = Some exA,
         rand = sconst 0, hintCount = 0, hintMask = [], IsPlaying = False,
         GameChannel = runes ''#testchannel'', QuestionTimer = Some 1, timers = [Armed, Armed],
         nextVotes = fmempty, NextVoteThreshold = 3\<rparr>,
      privmsgs = [(runes ''#testchannel'', msgQuestion exParis),
                  (runes ''#testchannel'', msgQuestion exA)],
      nextQuestionTimer = None, loopReturned = False\<rparr>"
  by (simp add: exTwoAsked_def gameLoop_init_def NewGame_def fillQuestionBuffer_def
        fillQuestionBufferUnlocked.simps askQuestion_def StartRound_def Intn_def Privmsg_def)

text \<open>
  C8 asks that after \<open>ClearCurrentQuestion\<close> any pending per-question timeout is
  cancelled. Two \<open>askQuestion\<close> in a row (two \<^verbatim>\<open>!question\<close> commands) leave two pending
  timers, of which the game points to the second. \<open>ClearCurrentQuestion\<close> clears the
  question, the hints and the votes and stops the second timer; the first one is still
  pending. When a third question has been asked and the first timer fires, its callback
  finds a question active, announces that time is up and clears the round of the third
  question.
\<close>

theorem orphaned_timeout_survives_clear:
  "CurrentQuestion (triviaGame exTwoAsked) = Some exA
   \<and> QuestionTimer (triviaGame exTwoAsked) = Some 1
   \<and> timers (triviaGame exTwoAsked) = [Armed, Armed]
   \<and> GetCurrentQuestion (triviaGame exCleared) = None
   \<and> hintCount (triviaGame exCleared) = 0
   \<and> nextVotes (triviaGame exCleared) = fmempty
   \<and> timers (triviaGame exCleared) = [Armed, Stopped]
   \<and> CurrentQuestion (triviaGame (askQuestion exCleared)) = Some exB
   \<and> timers (triviaGame (askQuestion exCleared)) = [Armed, Stopped, Armed]
   \<and> CurrentQuestion (triviaGame (fst (questionTimeout (askQuestion exCleared) 0))) = None
   \<and> last (privmsgs (fst (questionTimeout (askQuestion exCleared) 0)))
       = (runes ''#testchannel'', runes ''Time's up! The answer was: A2'')"
proof -
  have c: "exCleared = exTwoAsked\<lparr>triviaGame :=
      (triviaGame exTwoAsked)\<lparr>CurrentQuestion := None, timers := [Armed, Stopped]\<rparr>\<rparr>"
    by (simp add: exCleared_def exTwoAsked_eq ClearCurrentQuestion_def)
  have a: "askQuestion exCleared = exCleared\<lparr>triviaGame :=
      (triviaGame exCleared)\<lparr>questionBuffer := [], CurrentQuestion := Some exB,
         QuestionTimer := Some 2, timers := [Armed, Stopped, Armed]\<rparr>,
      privmsgs := privmsgs exCleared @ [(runes ''#testchannel'', msgQuestion exB)]\<rparr>"
    by (simp add: c exTwoAsked_eq askQuestion_def StartRound_def Intn_def Privmsg_def)
  have t: "msgTimesUp exB = runes ''Time's up! The answer was: A2''"
    by (simp add: msgTimesUp_def exB_def exQuestion_def runes_def)
  have f: "CurrentQuestion (triviaGame (fst (questionTimeout (askQuestion exCleared) 0))) = None
      \<and> last (privmsgs (fst (questionTimeout (askQuestion exCleared) 0)))
          = (runes ''#testchannel'', msgTimesUp exB)"
    unfolding a
    by (simp add: c exTwoAsked_eq questionTimeout_def GetCurrentQuestion_def Privmsg_def
          ClearCurrentQuestion_def Let_def)
  have g: "CurrentQuestion (triviaGame (askQuestion exCleared)) = Some exB
      \<and> timers (triviaGame (askQuestion exCleared)) = [Armed, Stopped, Armed]"
    unfolding a by simp
  have h: "CurrentQuestion (triviaGame exTwoAsked) = Some exA
      \<and> QuestionTimer (triviaGame exTwoAsked) = Some 1
      \<and> timers (triviaGame exTwoAsked) = [Armed, Armed]
      \<and> GetCurrentQuestion (triviaGame exCleared) = None
      \<and> hintCount (triviaGame exCleared) = 0
      \<and> nextVotes (triviaGame exCleared) = fmempty
      \<and> timers (triviaGame exCleared) = [Armed, Stopped]"
    by (simp add: c exTwoAsked_eq GetCurrentQuestion_def)
  from f g h t show ?thesis by simp
qed

section \<open>Skip votes\<close>

text \<open>
  C4. With a question active: a user who has voted already gets the tally as it stands,
  with skipNow = false and the state as it was; a new user is added and gets the tally
  plus one, with skipNow = true exactly when that reaches \<open>NextVoteThreshold\<close>, and the
  state differs from the one before in the set of votes only (the round is not cleared).
  So a second call by the same user returns the tally of the first call, with
  skipNow = false, and changes nothing.
\<close>

theorem one_vote_per_user:
  assumes "CurrentQuestion g \<noteq> None"
  shows "(user |\<in>| fmdom (nextVotes g) \<longrightarrow>
            AddNextVote g user
              = ((int (fcard (fmdom (nextVotes g))), NextVoteThreshold g, False), g))
       \<and> (user |\<notin>| fmdom (nextVotes g) \<longrightarrow>
            AddNextVote g user
              = ((int (fcard (fmdom (nextVotes g))) + 1, NextVoteThreshold g,
                  NextVoteThreshold g \<le> int (fcard (fmdom (nextVotes g))) + 1),
                 g\<lparr>nextVotes := fmupd user True (nextVotes g)\<rparr>))
       \<and> (\<forall>n t s g1. AddNextVote g user = ((n, t, s), g1) \<longrightarrow>
            AddNextVote g1 user = ((n, t, False), g1))"
proof -
  from assms obtain q where q: "CurrentQuestion g = Some q" by auto
  have a: "user |\<in>| fmdom (nextVotes g) \<Longrightarrow>
      AddNextVote g user = ((int (fcard (fmdom (nextVotes g))), NextVoteThreshold g, False), g)"
    by (simp add: AddNextVote_def q)
  have b: "user |\<notin>| fmdom (nextVotes g) \<Longrightarrow>
      AddNextVote g user
        = ((int (fcard (fmdom (nextVotes g))) + 1, NextVoteThreshold g,
            NextVoteThreshold g \<le> int (fcard (fmdom (nextVotes g))) + 1),
           g\<lparr>nextVotes := fmupd user True (nextVotes g)\<rparr>)"
    by (simp add: AddNextVote_def q Let_def fcard_finsert_if)
  have c: "\<forall>n t s g1. AddNextVote g user = ((n, t, s), g1) \<longrightarrow>
            AddNextVote g1 user = ((n, t, False), g1)"
  proof (cases "user |\<in>| fmdom (nextVotes g)")
    case True
    with a show ?thesis by auto
  next
    case False
    with b show ?thesis
      by (auto simp: AddNextVote_def q fcard_finsert_if)
  qed
  from a b c show ?thesis by blast
qed

theorem one_vote_per_user_witness:
  "CurrentQuestion exVoting \<noteq> None
   \<and> fst (AddNextVote exVoting (runes ''user1'')) = (1, 2, False)
   \<and> fst (AddNextVote (snd (AddNextVote exVoting (runes ''user1''))) (runes ''user2'')) = (2, 2, True)
   \<and> fst (AddNextVote (snd (AddNextVote exVoting (runes ''user1''))) (runes ''user1'')) = (1, 2, False)
   \<and> CurrentQuestion (snd (AddNextVote (snd (AddNextVote exVoting (runes ''user1''))) (runes ''user2'')))
       = Some exA"
proof -
  let ?g1 = "exVoting\<lparr>nextVotes := fmupd (runes ''user1'') True fmempty\<rparr>"
  have h0: "CurrentQuestion exVoting \<noteq> None" by (simp add: exVoting_def)
  have h1: "CurrentQuestion ?g1 \<noteq> None" by (simp add: exVoting_def)
  have v0: "nextVotes exVoting = fmempty" "NextVoteThreshold exVoting = 2"
    by (simp_all add: exVoting_def)
  have ne: "runes ''user2'' \<noteq> runes ''user1''" by (simp add: runes_def)
  from one_vote_per_user [OF h0, of "runes ''user1''"] v0
  have s1: "AddNextVote exVoting (runes ''user1'') = ((1, 2, False), ?g1)"
    by (simp add: fcard_fempty)
  from one_vote_per_user [OF h1, of "runes ''user2''"] v0 ne
  have s2: "AddNextVote ?g1 (runes ''user2'')
      = ((2, 2, True), ?g1\<lparr>nextVotes := fmupd (runes ''user2'') True (nextVotes ?g1)\<rparr>)"
    by (simp add: fcard_fempty fcard_finsert_if)
  from one_vote_per_user [OF h0, of "runes ''user1''"]
  have "\<forall>n t s g1. AddNextVote exVoting (runes ''user1'') = ((n, t, s), g1) \<longrightarrow>
            AddNextVote g1 (runes ''user1'') = ((n, t, False), g1)"
    by blast
  with s1 have s3: "AddNextVote ?g1 (runes ''user1'') = ((1, 2, False), ?g1)"
    by blast
  show ?thesis using h0 s1 s2 s3 by (simp add: exVoting_def)
qed

section \<open>Checking an answer\<close>

lemma filter_dropWhile_disjoint:
  "(\<And>x. P x \<Longrightarrow> \<not> Q x) \<Longrightarrow> filter Q (dropWhile P xs) = filter Q xs"
  by (induction xs) auto

lemma space_not_alnum: "unicode_IsSpace r \<Longrightarrow> \<not> isAlphaNum r"
  by (auto simp: unicode_IsSpace_def isAlphaNum_def)

lemma normalizeAnswer_filter:
  "normalizeAnswer s = filter isAlphaNum (map unicode_ToLower s)"
proof -
  have "filter isAlphaNum (strings_TrimSpace t) = filter isAlphaNum t" for t
  proof -
    have "filter isAlphaNum (strings_TrimSpace t)
        = rev (filter isAlphaNum (dropWhile unicode_IsSpace (rev (dropWhile unicode_IsSpace t))))"
      by (simp add: strings_TrimSpace_def rev_filter)
    also have "\<dots> = rev (filter isAlphaNum (rev (dropWhile unicode_IsSpace t)))"
      by (simp add: filter_dropWhile_disjoint space_not_alnum)
    also have "\<dots> = filter isAlphaNum (dropWhile unicode_IsSpace t)"
      by (simp add: rev_filter)
    also have "\<dots> = filter isAlphaNum t"
      by (simp add: filter_dropWhile_disjoint space_not_alnum)
    finally show ?thesis .
  qed
  then show ?thesis
    by (simp add: normalizeAnswer_def strings_ToLower_def regNonAlphaNum_ReplaceAll_empty_def)
qed



lemma normalizeAnswer_rune:
  "normalizeAnswer [r] =
     (if (97 \<le> r \<and> r \<le> 122) \<or> (48 \<le> r \<and> r \<le> 57) then [r]
      else if 65 \<le> r \<and> r \<le> 90 then [r + 32]
      else if r = 304 then [105]
      else if r = 8490 then [107]
      else [])"
  by (simp add: normalizeAnswer_filter isAlphaNum_def unicode_ToLower_def)

lemma normalizeAnswer_append:
  "normalizeAnswer (xs @ ys) = normalizeAnswer xs @ normalizeAnswer ys"
  by (simp add: normalizeAnswer_filter)

lemma normalizeAnswer_Cons:
  "normalizeAnswer (r # rs) = normalizeAnswer [r] @ normalizeAnswer rs"
  using normalizeAnswer_append [of "[r]" rs] by simp









section \<open>Answers without letters or digits\<close>

text \<open>
  C10 as it is stated fails. The Kelvin sign U+212A is no ASCII letter or digit, and \<^verbatim>\<open>strings.ToLower\<close> turns it
  into the letter \<^verbatim>\<open>k\<close>: the answer made of it has the normal form \<^verbatim>\<open>"k"\<close>, and the
  empty submission is refused.
\<close>

theorem kelvin_answer_counterexample:
  "CurrentQuestion (exAsking exKelvin) = Some exKelvin
   \<and> Answer exKelvin = [8490] \<and> \<not> isAlphaNum 8490
   \<and> normalizeAnswer (Answer exKelvin) = [107]
   \<and> \<not> CheckAnswer (exAsking exKelvin) []"
  by (simp add: exAsking_def exKelvin_def isAlphaNum_def CheckAnswer_def normalizeAnswer_filter
        unicode_ToLower_def)

text \<open>
  C10, amended. For an active question whose answer contains no ASCII letter or digit
  and neither U+0130 nor U+212A (the two characters beyond ASCII that
  \<^verbatim>\<open>strings.ToLower\<close> turns into ASCII letters), the normal form of the answer is the
  empty string, and \<open>CheckAnswer\<close> is true for every submission that contains none of
  these either, the empty one included.
\<close>

theorem empty_normal_form_accepts:
  assumes "CurrentQuestion g = Some q"
    and "\<forall>r \<in> set (Answer q). \<not> isAlphaNum r \<and> r \<noteq> 304 \<and> r \<noteq> 8490"
    and "\<forall>r \<in> set submission. \<not> isAlphaNum r \<and> r \<noteq> 304 \<and> r \<noteq> 8490"
  shows "normalizeAnswer (Answer q) = [] \<and> CheckAnswer g submission"
proof -
  have one: "normalizeAnswer [r] = []" if "\<not> isAlphaNum r" "r \<noteq> 304" "r \<noteq> 8490" for r
    using that unfolding normalizeAnswer_rune isAlphaNum_def by simp
  have "normalizeAnswer s = []" if "\<forall>r \<in> set s. \<not> isAlphaNum r \<and> r \<noteq> 304 \<and> r \<noteq> 8490" for s
    using that
  proof (induction s)
    case Nil
    show ?case by (simp add: normalizeAnswer_filter)
  next
    case (Cons r rs)
    then show ?case using normalizeAnswer_Cons [of r rs] by (simp add: one)
  qed
  with assms show ?thesis by (simp add: CheckAnswer_def)
qed

theorem empty_normal_form_accepts_witness:
  "CurrentQuestion (exAsking exDots) = Some exDots
   \<and> normalizeAnswer (Answer exDots) = []
   \<and> CheckAnswer (exAsking exDots) []
   \<and> CheckAnswer (exAsking exDots) (runes '' - '')"
proof -
  have h: "CurrentQuestion (exAsking exDots) = Some exDots" by (simp add: exAsking_def)
  have a: "\<forall>r \<in> set (Answer exDots). \<not> isAlphaNum r \<and> r \<noteq> 304 \<and> r \<noteq> 8490"
    by (simp add: exDots_def exQuestion_def runes_def isAlphaNum_def)
  have s1: "\<forall>r \<in> set ([]::gostring). \<not> isAlphaNum r \<and> r \<noteq> 304 \<and> r \<noteq> 8490" by simp
  have s2: "\<forall>r \<in> set (runes '' - ''). \<not> isAlphaNum r \<and> r \<noteq> 304 \<and> r \<noteq> 8490"
    by (simp add: runes_def isAlphaNum_def)
  from empty_normal_form_accepts [OF h a s1] empty_normal_form_accepts [OF h a s2] h
  show ?thesis by blast
qed

section \<open>Hints\<close>

lemma firstUnderscore_Some: "firstUnderscore m = Some i \<Longrightarrow> i < length m \<and> m ! i = 95"
  by (induction m arbitrary: i) (auto split: if_splits)

lemma tryReveal_result:
  "tryReveal n a m r = Inr (b, m', r') \<Longrightarrow>
     (if b then \<exists>i < length m. m ! i = 95 \<and> m' = m[i := a ! i] else m' = m)"
proof (induction n arbitrary: r)
  case 0
  then show ?case by simp
next
  case (Suc n)
  show ?case
  proof (cases "length a = 0")
    case True
    with Suc.prems show ?thesis by simp
  next
    case False
    obtain idx r1 where d: "Intn r (length a) = (idx, r1)" by (cases "Intn r (length a)")
    show ?thesis
    proof (cases "length m \<le> idx")
      case True
      with Suc.prems False d show ?thesis by simp
    next
      case inside: False
      show ?thesis
      proof (cases "m ! idx = 95")
        case True
        with Suc.prems False d inside have "b" "m' = m[idx := a ! idx]" by simp_all
        with True inside show ?thesis by (auto intro!: exI [of _ idx])
      next
        case other: False
        with Suc.prems False d inside have "tryReveal n a m r1 = Inr (b, m', r')" by simp
        then show ?thesis by (rule Suc.IH)
      qed
    qed
  qed
qed

lemma revealFirst_result:
  "revealFirst a m = Inr (b, m') \<Longrightarrow>
     (if b then \<exists>i < length m. m ! i = 95 \<and> m' = m[i := a ! i] else m' = m)"
  by (auto simp: revealFirst_def split: option.splits if_splits dest: firstUnderscore_Some)

lemma GetHint_result:
  assumes "GetHint g = Inr ((txt, granted), g')"
  shows "hintCount g' = hintCount g + (if granted then 1 else 0)
       \<and> (granted \<longrightarrow> hintCount g < MaxHints \<and>
            (\<exists>q i. CurrentQuestion g = Some q
               \<and> i < length (if hintMask g = [] then initialMask (strings_TrimSpace (Answer q)) else hintMask g)
               \<and> (if hintMask g = [] then initialMask (strings_TrimSpace (Answer q)) else hintMask g) ! i = 95
               \<and> hintMask g' = (if hintMask g = [] then initialMask (strings_TrimSpace (Answer q)) else hintMask g)
                                  [i := strings_TrimSpace (Answer q) ! i]))"
proof (cases "CurrentQuestion g")
  case None
  with assms show ?thesis by (auto simp: GetHint_def)
next
  case (Some q)
  show ?thesis
  proof (cases "hintCount g \<ge> MaxHints")
    case True
    with assms Some show ?thesis by (auto simp: GetHint_def)
  next
    case False
    let ?a = "strings_TrimSpace (Answer q)"
    let ?m0 = "if hintMask g = [] then initialMask ?a else hintMask g"
    from assms Some False obtain b1 m1 r' where
      t: "tryReveal 5 ?a ?m0 (rand g) = Inr (b1, m1, r')"
      by (auto simp: GetHint_def Let_def split: sum.splits)
    show ?thesis
    proof (cases b1)
      case True
      with assms Some False t tryReveal_result [OF t] show ?thesis
        by (auto simp: GetHint_def Let_def)
    next
      case nb: False
      with tryReveal_result [OF t] have m1: "m1 = ?m0" by simp
      from assms Some False t nb obtain b2 m2 where
        f: "revealFirst ?a m1 = Inr (b2, m2)"
        by (auto simp: GetHint_def Let_def split: sum.splits)
      from assms Some False t nb f revealFirst_result [OF f] m1 show ?thesis
        by (auto simp: GetHint_def Let_def split: if_splits)
    qed
  qed
qed

lemma hintsGranted_bound:
  "0 \<le> hintCount g \<Longrightarrow> hintCount g \<le> MaxHints \<Longrightarrow> int (hintsGranted n g) + hintCount g \<le> MaxHints"
proof (induction n arbitrary: g)
  case 0
  then show ?case by simp
next
  case (Suc n)
  show ?case
  proof (cases "GetHint g")
    case (Inl p)
    with Suc.prems show ?thesis by simp
  next
    case (Inr res)
    then obtain msg granted g' where r: "GetHint g = Inr ((msg, granted), g')"
      by (cases res) auto
    from GetHint_result [OF r] have
      c: "hintCount g' = hintCount g + (if granted then 1 else 0)" and
      l: "granted \<longrightarrow> hintCount g < MaxHints" by auto
    with Suc.prems have "0 \<le> hintCount g'" "hintCount g' \<le> MaxHints" by auto
    from Suc.IH [OF this] c r show ?thesis by (cases granted) simp_all
  qed
qed


lemma tryReveal_numeral:
  "tryReveal (numeral k) a m r =
     (if length a = 0 then Inl IntnInvalidArgument
      else
        let (idx, r') = Intn r (length a)
        in if length m \<le> idx then Inl IndexOutOfRange
           else if m ! idx = 95 then Inr (True, m[idx := a ! idx], r')
           else tryReveal (pred_numeral k) a m r')"
  by (simp add: numeral_eq_Suc)

lemma tryReveal_1:
  "tryReveal 1 a m r =
     (if length a = 0 then Inl IntnInvalidArgument
      else
        let (idx, r') = Intn r (length a)
        in if length m \<le> idx then Inl IndexOutOfRange
           else if m ! idx = 95 then Inr (True, m[idx := a ! idx], r')
           else Inr (False, m, r'))"
  using tryReveal.simps(2) [of 0 a m r] by (auto split: prod.splits)

lemma msgMaxHints_text: "msgMaxHints = runes ''Maximum hints (3) reached for this question.''"
  by (simp add: msgMaxHints_def MaxHints_def decimal.simps runes_def)

text \<open>
  What holds of \<open>GetHint\<close> in every state. Once the hint counter has reached
  \<open>MaxHints\<close> = 3, a call on an active question returns the maximum-hints message with
  granted = false and the state as it was. Whenever \<open>GetHint\<close> returns, the counter has
  gone up by one if a hint was granted and is the same if not; a granted hint means the
  counter was below \<open>MaxHints\<close> and one slot of the mask that held an underscore was
  assigned the answer's character at that place. Starting with a counter between 0 and
  \<open>MaxHints\<close>, any number of successive calls grants at most \<open>MaxHints\<close> minus the counter
  hints.
\<close>

lemma GetHint_capped:
  "(CurrentQuestion g \<noteq> None \<and> hintCount g \<ge> MaxHints \<longrightarrow>
      GetHint g = Inr ((runes ''Maximum hints (3) reached for this question.'', False), g))
   \<and> (\<forall>msg granted g'. GetHint g = Inr ((msg, granted), g') \<longrightarrow>
         hintCount g' = hintCount g + (if granted then 1 else 0)
         \<and> (granted \<longrightarrow> hintCount g < MaxHints \<and>
              (\<exists>q i. CurrentQuestion g = Some q
                 \<and> i < length (if hintMask g = [] then initialMask (strings_TrimSpace (Answer q)) else hintMask g)
                 \<and> (if hintMask g = [] then initialMask (strings_TrimSpace (Answer q)) else hintMask g) ! i = 95
                 \<and> hintMask g' = (if hintMask g = [] then initialMask (strings_TrimSpace (Answer q)) else hintMask g)
                                    [i := strings_TrimSpace (Answer q) ! i])))
   \<and> (0 \<le> hintCount g \<and> hintCount g \<le> MaxHints \<longrightarrow> int (hintsGranted n g) + hintCount g \<le> MaxHints)
   \<and> MaxHints = 3"
proof -
  have a: "CurrentQuestion g \<noteq> None \<and> hintCount g \<ge> MaxHints \<longrightarrow>
      GetHint g = Inr ((runes ''Maximum hints (3) reached for this question.'', False), g)"
    by (auto simp: GetHint_def msgMaxHints_text)
  have c: "0 \<le> hintCount g \<and> hintCount g \<le> MaxHints \<longrightarrow> int (hintsGranted n g) + hintCount g \<le> MaxHints"
    by (simp add: hintsGranted_bound)
  have d: "MaxHints = 3" by (simp add: MaxHints_def)
  from a c d GetHint_result [of g] show ?thesis by blast
qed


text \<open>
  C3 says that the hint counter increments only when a character is actually revealed.
  The mask marks a hidden character with an underscore, and \<open>GetHint\<close> takes any slot
  holding an underscore for a hidden one. With the answer \<^verbatim>\<open>A_B\<close> the first call reveals
  \<^verbatim>\<open>A\<close>. The second and the third call find the underscore of the answer itself, assign
  it to the slot that holds it already, and report a hint: the text and the mask are what
  they were, \<^verbatim>\<open>A__\<close>, and the counter goes from 1 to 2 and to 3. The fourth call meets the
  cap, with \<^verbatim>\<open>B\<close> never shown.
\<close>

theorem underscore_hint_counts_without_reveal:
  "GetHint (exAsking exUnderscore)
     = Inr ((runes ''A__'', True),
            (exAsking exUnderscore)\<lparr>hintMask := runes ''A__'', hintCount := 1\<rparr>)
   \<and> GetHint ((exAsking exUnderscore)\<lparr>hintMask := runes ''A__'', hintCount := 1\<rparr>)
     = Inr ((runes ''A__'', True),
            (exAsking exUnderscore)\<lparr>hintMask := runes ''A__'', hintCount := 2\<rparr>)
   \<and> GetHint ((exAsking exUnderscore)\<lparr>hintMask := runes ''A__'', hintCount := 2\<rparr>)
     = Inr ((runes ''A__'', True),
            (exAsking exUnderscore)\<lparr>hintMask := runes ''A__'', hintCount := 3\<rparr>)
   \<and> GetHint ((exAsking exUnderscore)\<lparr>hintMask := runes ''A__'', hintCount := 3\<rparr>)
     = Inr ((runes ''Maximum hints (3) reached for this question.'', False),
            (exAsking exUnderscore)\<lparr>hintMask := runes ''A__'', hintCount := 3\<rparr>)"
proof -
  let ?g0 = "exAsking exUnderscore"
  have trim: "strings_TrimSpace (runes ''A_B'') = runes ''A_B''"
    by (simp add: strings_TrimSpace_def runes_def unicode_IsSpace_def)
  have s1: "GetHint ?g0 = Inr ((runes ''A__'', True), ?g0\<lparr>hintMask := runes ''A__'', hintCount := 1\<rparr>)"
    by (simp add: GetHint_def exAsking_def exUnderscore_def exQuestion_def MaxHints_def trim
          initialMask_def Intn_def tryReveal_numeral tryReveal_1 Let_def)
       (simp add: runes_def)
  have s2: "GetHint (?g0\<lparr>hintMask := runes ''A__'', hintCount := 1\<rparr>)
      = Inr ((runes ''A__'', True), ?g0\<lparr>hintMask := runes ''A__'', hintCount := 2\<rparr>)"
    by (simp add: GetHint_def exAsking_def exUnderscore_def exQuestion_def MaxHints_def trim
          Intn_def tryReveal_numeral tryReveal_1 revealFirst_def Let_def)
       (simp add: runes_def)
  have s3: "GetHint (?g0\<lparr>hintMask := runes ''A__'', hintCount := 2\<rparr>)
      = Inr ((runes ''A__'', True), ?g0\<lparr>hintMask := runes ''A__'', hintCount := 3\<rparr>)"
    by (simp add: GetHint_def exAsking_def exUnderscore_def exQuestion_def MaxHints_def trim
          Intn_def tryReveal_numeral tryReveal_1 revealFirst_def Let_def)
       (simp add: runes_def)
  have s4: "GetHint (?g0\<lparr>hintMask := runes ''A__'', hintCount := 3\<rparr>)
      = Inr ((runes ''Maximum hints (3) reached for this question.'', False),
             ?g0\<lparr>hintMask := runes ''A__'', hintCount := 3\<rparr>)"
    by (simp add: GetHint_def exAsking_def MaxHints_def msgMaxHints_text)
  from s1 s2 s3 s4 show ?thesis by blast
qed

section \<open>Starting a round over an active one\<close>

lemma fill_keeps_round:
  "CurrentQuestion (fillQuestionBufferUnlocked h) = CurrentQuestion h
   \<and> hintCount (fillQuestionBufferUnlocked h) = hintCount h
   \<and> hintMask (fillQuestionBufferUnlocked h) = hintMask h"
  by (induction h rule: fillQuestionBufferUnlocked.induct)
     (subst (1 2 3) fillQuestionBufferUnlocked.simps, auto split: prod.splits next_result.splits)

lemma StartRound_keeps_hint_state:
  "StartRound g = (res, g') \<Longrightarrow>
     hintCount g' = hintCount g \<and> hintMask g' = hintMask g \<and> nextVotes g' = nextVotes g
     \<and> CurrentQuestion g' = (case res of None \<Rightarrow> CurrentQuestion g | Some q \<Rightarrow> Some q)"
  by (auto simp: StartRound_def Let_def fill_keeps_round fill_keeps_votes split: if_splits prod.splits)

lemma exRound1_eq:
  "exRound1 = \<lparr>questionSource = [], questionBuffer = [exA], CurrentQuestion = Some exParis,
        rand = sconst 0, hintCount = 0, hintMask = [], IsPlaying = False,
        GameChannel = runes ''#testchannel'', QuestionTimer = None, timers = [],
        nextVotes = fmempty, NextVoteThreshold = 3\<rparr>"
  by (simp add: exRound1_def NewGame_def fillQuestionBuffer_def fillQuestionBufferUnlocked.simps
        StartRound_def Intn_def)

lemma exHinted_eq:
  "exHinted = exRound1\<lparr>hintMask := runes ''P____'', hintCount := 1\<rparr>"
proof -
  have trim: "strings_TrimSpace (runes ''Paris'') = runes ''Paris''"
    by (simp add: strings_TrimSpace_def runes_def unicode_IsSpace_def)
  have "GetHint exRound1 = Inr ((runes ''P____'', True), exRound1\<lparr>hintMask := runes ''P____'', hintCount := 1\<rparr>)"
    by (simp add: GetHint_def exRound1_eq exParis_def exQuestion_def MaxHints_def trim
          initialMask_def Intn_def tryReveal_numeral tryReveal_1 Let_def)
       (simp add: runes_def)
  then show ?thesis by (simp add: exHinted_def)
qed

lemma exVoted_eq:
  "exVoted = \<lparr>questionSource = [], questionBuffer = [exA], CurrentQuestion = Some exParis,
        rand = sconst 0, hintCount = 1, hintMask = runes ''P____'', IsPlaying = False,
        GameChannel = runes ''#testchannel'', QuestionTimer = None, timers = [],
        nextVotes = fmupd (runes ''user1'') True fmempty, NextVoteThreshold = 3\<rparr>"
  by (simp add: exVoted_def exHinted_eq exRound1_eq AddNextVote_def fcard_finsert_if fcard_fempty)

text \<open>
  C1 asks for a fresh hint state after every successful \<open>StartRound\<close>, also when it
  replaces an active question. \<open>StartRound\<close> assigns \<open>CurrentQuestion\<close> and nothing else
  of the round (\<open>StartRound_keeps_hint_state\<close>), so the hint state is fresh after it only
  if it was before. Here the first question has had one hint and one skip vote; after the
  second \<open>StartRound\<close> the new question is active with the counter at 1, the mask of the
  old answer and the old vote, and the same user's vote on the new question is refused as
  a repeated one.
\<close>

theorem replaced_round_keeps_hint_state:
  "CurrentQuestion exVoted = Some exParis
   \<and> fst (StartRound exVoted) = Some exA
   \<and> CurrentQuestion (snd (StartRound exVoted)) = Some exA
   \<and> hintCount (snd (StartRound exVoted)) = 1
   \<and> hintMask (snd (StartRound exVoted)) = runes ''P____''
   \<and> nextVotes (snd (StartRound exVoted)) = fmupd (runes ''user1'') True fmempty
   \<and> fst (AddNextVote (snd (StartRound exVoted)) (runes ''user1'')) = (1, 3, False)"
proof -
  have s: "StartRound exVoted = (Some exA, exVoted\<lparr>questionBuffer := [], CurrentQuestion := Some exA\<rparr>)"
    by (simp add: StartRound_def exVoted_eq Intn_def)
  show ?thesis
    by (simp add: s) (simp add: exVoted_eq AddNextVote_def fcard_finsert_if fcard_fempty)
qed

section \<open>The game loop\<close>

lemma fill_frame:
  "fillQuestionBufferUnlocked h
     = h\<lparr>questionSource := questionSource (fillQuestionBufferUnlocked h),
          questionBuffer := questionBuffer (fillQuestionBufferUnlocked h)\<rparr>"
  by (induction h rule: fillQuestionBufferUnlocked.induct)
     (subst (1 2 3) fillQuestionBufferUnlocked.simps, auto split: prod.splits next_result.splits)

lemma fill_keeps_play:
  "IsPlaying (fillQuestionBufferUnlocked h) = IsPlaying h"
  "GameChannel (fillQuestionBufferUnlocked h) = GameChannel h"
  by (subst fill_frame, simp)+

lemma StartRound_none:
  assumes "fst (StartRound g) = None"
  shows "CurrentQuestion (snd (StartRound g)) = CurrentQuestion g"
    and "GameChannel (snd (StartRound g)) = GameChannel g"
  using assms
  by (auto simp: StartRound_def Let_def fill_keeps_round fill_keeps_play split: if_splits prod.splits)

lemma askQuestion_none:
  assumes "fst (StartRound (triviaGame w)) = None"
  shows "askQuestion w
           = w\<lparr>triviaGame := SetPlaying (snd (StartRound (triviaGame w))) False,
                privmsgs := privmsgs w @ [(GameChannel (triviaGame w), msgNoMoreQuestions)]\<rparr>"
  using assms StartRound_none(2) [OF assms]
  by (cases "StartRound (triviaGame w)") (auto simp: askQuestion_def Privmsg_def)

lemma idle_loop_case:
  "\<not> IsPlaying (triviaGame w) \<Longrightarrow>
     triviaGame (gameLoop_case w e) = triviaGame w \<and> privmsgs (gameLoop_case w e) = privmsgs w"
  by (cases e) (auto simp: GetPlaying_def)

lemma idle_loop:
  "\<not> IsPlaying (triviaGame w) \<Longrightarrow>
     triviaGame (gameLoop w evs) = triviaGame w \<and> privmsgs (gameLoop w evs) = privmsgs w"
proof (induction evs arbitrary: w)
  case Nil
  then show ?case by simp
next
  case (Cons e evs)
  show ?case
  proof (cases "ready w e")
    case True
    from idle_loop_case [OF Cons.prems, of e]
    have k: "triviaGame (gameLoop_case w e) = triviaGame w" "privmsgs (gameLoop_case w e) = privmsgs w"
      by simp_all
    with Cons.prems have "\<not> IsPlaying (triviaGame (gameLoop_case w e))" by simp
    from Cons.IH [OF this] k True show ?thesis by simp
  next
    case False
    with Cons.IH [OF Cons.prems] show ?thesis by simp
  qed
qed

text \<open>
  C6 as it is stated fails: a firing of the timer that finds nothing left to ask does not
  clear a question that is active, so the game is not left idle then.
\<close>

theorem exhaustion_with_active_question_counterexample:
  "ready exPlayingBusyDry TimerC
   \<and> GetPlaying (triviaGame exPlayingBusyDry)
   \<and> fst (StartRound (triviaGame exPlayingBusyDry)) = None
   \<and> \<not> GetPlaying (triviaGame (gameLoop_case exPlayingBusyDry TimerC))
   \<and> GetCurrentQuestion (triviaGame (gameLoop_case exPlayingBusyDry TimerC)) = Some exA"
proof -
  have g: "triviaGame exPlayingBusyDry = (exAsking exA)\<lparr>IsPlaying := True\<rparr>"
    by (simp add: exPlayingBusyDry_def gameLoop_init_def SetPlaying_def)
  have n: "StartRound ((exAsking exA)\<lparr>IsPlaying := True\<rparr>) = (None, (exAsking exA)\<lparr>IsPlaying := True\<rparr>)"
    by (simp add: exAsking_def StartRound_def fillQuestionBufferUnlocked.simps)
  have r: "ready exPlayingBusyDry TimerC"
    by (simp add: ready_def exPlayingBusyDry_def gameLoop_init_def)
  have a: "askQuestion (exPlayingBusyDry\<lparr>nextQuestionTimer := None\<rparr>)
      = exPlayingBusyDry\<lparr>nextQuestionTimer := None,
          triviaGame := (exAsking exA)\<lparr>IsPlaying := False\<rparr>,
          privmsgs := privmsgs exPlayingBusyDry
             @ [(GameChannel (exAsking exA), msgNoMoreQuestions)]\<rparr>"
    by (simp add: askQuestion_def g n Privmsg_def SetPlaying_def)
  show ?thesis
    using r by (simp add: g n a GetPlaying_def GetCurrentQuestion_def Let_def) (simp add: exAsking_def)
qed

text \<open>
  C6, amended. When the loop's timer fires with continuous play on and \<open>StartRound\<close>
  returns no question, the loop's step turns continuous play off, sends the
  no-more-questions message and neither starts nor clears a round: the active question is
  what it was, so that a game that was idle when the timer fired is left idle. Whatever
  events the loop is offered afterwards, it asks nothing more: the game and the messages
  sent stay as they are.
\<close>

theorem exhaustion_ends_continuous_play:
  assumes "GetPlaying (triviaGame w)" and "fst (StartRound (triviaGame w)) = None"
  shows "\<not> GetPlaying (triviaGame (gameLoop_case w TimerC))
       \<and> CurrentQuestion (triviaGame (gameLoop_case w TimerC)) = CurrentQuestion (triviaGame w)
       \<and> (GetCurrentQuestion (triviaGame w) = None \<longrightarrow>
            GetCurrentQuestion (triviaGame (gameLoop_case w TimerC)) = None)
       \<and> privmsgs (gameLoop_case w TimerC)
           = privmsgs w @ [(GameChannel (triviaGame w), msgNoMoreQuestions)]
       \<and> triviaGame (gameLoop (gameLoop_case w TimerC) evs) = triviaGame (gameLoop_case w TimerC)
       \<and> privmsgs (gameLoop (gameLoop_case w TimerC) evs) = privmsgs (gameLoop_case w TimerC)"
proof -
  let ?w0 = "w\<lparr>nextQuestionTimer := None\<rparr>"
  have n: "fst (StartRound (triviaGame ?w0)) = None" using assms(2) by simp
  have step: "gameLoop_case w TimerC = (askQuestion ?w0)\<lparr>nextQuestionTimer := Some 45\<rparr>"
    using assms(1) by (simp add: Let_def)
  have a: "\<not> GetPlaying (triviaGame (gameLoop_case w TimerC))"
    unfolding step by (simp add: askQuestion_none [OF n] GetPlaying_def SetPlaying_def)
  have b: "CurrentQuestion (triviaGame (gameLoop_case w TimerC)) = CurrentQuestion (triviaGame w)"
    using StartRound_none(1) [OF assms(2)]
    unfolding step by (simp add: askQuestion_none [OF n] SetPlaying_def)
  have c: "privmsgs (gameLoop_case w TimerC)
           = privmsgs w @ [(GameChannel (triviaGame w), msgNoMoreQuestions)]"
    unfolding step by (simp add: askQuestion_none [OF n])
  from a have "\<not> IsPlaying (triviaGame (gameLoop_case w TimerC))" by (simp add: GetPlaying_def)
  from idle_loop [OF this, of evs] a b c show ?thesis by (simp add: GetCurrentQuestion_def)
qed

theorem exhaustion_ends_continuous_play_witness:
  "GetPlaying (triviaGame exPlayingDry) \<and> fst (StartRound (triviaGame exPlayingDry)) = None
   \<and> ready exPlayingDry TimerC
   \<and> \<not> GetPlaying (triviaGame (gameLoop_case exPlayingDry TimerC))
   \<and> CurrentQuestion (triviaGame (gameLoop_case exPlayingDry TimerC)) = None
   \<and> privmsgs (gameLoop exPlayingDry [TimerC, AnswerGivenRecv False, TimerC, TimerC])
       = [(runes ''#testchannel'',
           runes ''No more questions left! Reset the game or load more questions.'')]"
proof -
  have g: "triviaGame exPlayingDry = exIdle\<lparr>IsPlaying := True\<rparr>"
    by (simp add: exPlayingDry_def gameLoop_init_def SetPlaying_def)
  have h1: "GetPlaying (triviaGame exPlayingDry)" by (simp add: g GetPlaying_def)
  have h2: "fst (StartRound (triviaGame exPlayingDry)) = None"
    by (simp add: g exIdle_eq StartRound_def fillQuestionBufferUnlocked.simps)
  have r: "ready exPlayingDry TimerC" by (simp add: ready_def exPlayingDry_def gameLoop_init_def)
  have m: "privmsgs exPlayingDry = []" "CurrentQuestion (triviaGame exPlayingDry) = None"
      "GameChannel (triviaGame exPlayingDry) = runes ''#testchannel''"
    by (simp_all add: g exIdle_eq) (simp add: exPlayingDry_def gameLoop_init_def)
  from exhaustion_ends_continuous_play [OF h1 h2, of "[AnswerGivenRecv False, TimerC, TimerC]"]
    h1 h2 r m
  show ?thesis by (simp add: msgNoMoreQuestions_def)
qed





section \<open>The question buffer\<close>

lemma fill_pending:
  "questionSource g = map Yield qs \<Longrightarrow>
     \<exists>qs'. questionSource (fillQuestionBufferUnlocked g) = map Yield qs'
        \<and> mset (questionBuffer (fillQuestionBufferUnlocked g)) + mset qs'
            = mset (questionBuffer g) + mset qs
        \<and> (questionBuffer (fillQuestionBufferUnlocked g) = [] \<longrightarrow> qs' = [])"
proof (induction g arbitrary: qs rule: fillQuestionBufferUnlocked.induct)
  case (1 g)
  show ?case
  proof (cases "length (questionBuffer g) < 3")
    case False
    then have "fillQuestionBufferUnlocked g = g"
      by (subst fillQuestionBufferUnlocked.simps) simp
    with 1(2) False show ?thesis by auto
  next
    case True
    show ?thesis
    proof (cases qs)
      case Nil
      with True 1(2) have "fillQuestionBufferUnlocked g = g\<lparr>questionSource := []\<rparr>"
        by (subst fillQuestionBufferUnlocked.simps) simp
      with Nil show ?thesis by simp
    next
      case (Cons q rest)
      let ?g2 = "g\<lparr>questionSource := map Yield rest, questionBuffer := questionBuffer g @ [q]\<rparr>"
      from True 1(2) Cons have nx: "Next (questionSource g) = (NextOk q, map Yield rest)" by simp
      with True have eq: "fillQuestionBufferUnlocked g = fillQuestionBufferUnlocked ?g2"
        by (subst fillQuestionBufferUnlocked.simps) simp
      have "questionSource ?g2 = map Yield rest" by simp
      from 1(1) [OF True nx [symmetric] refl this]
      obtain qs' where
        "questionSource (fillQuestionBufferUnlocked ?g2) = map Yield qs'"
        "mset (questionBuffer (fillQuestionBufferUnlocked ?g2)) + mset qs'
            = mset (questionBuffer ?g2) + mset rest"
        "questionBuffer (fillQuestionBufferUnlocked ?g2) = [] \<longrightarrow> qs' = []"
        by blast
      with eq Cons show ?thesis by auto
    qed
  qed
qed


lemma StartRound_pending:
  assumes "questionSource g = map Yield qs" and "StartRound g = (res, g')"
  shows "\<exists>qs'. questionSource g' = map Yield qs'
        \<and> (case res of
              None \<Rightarrow> mset (questionBuffer g) + mset qs = {#}
                      \<and> mset (questionBuffer g') + mset qs' = {#}
            | Some q \<Rightarrow> q \<in># mset (questionBuffer g) + mset qs
                      \<and> mset (questionBuffer g') + mset qs'
                          = mset (questionBuffer g) + mset qs - {#q#})"
proof -
  let ?g1 = "if length (questionBuffer g) = 0 then fillQuestionBufferUnlocked g else g"
  have "\<exists>qs1. questionSource ?g1 = map Yield qs1
        \<and> mset (questionBuffer ?g1) + mset qs1 = mset (questionBuffer g) + mset qs
        \<and> (questionBuffer ?g1 = [] \<longrightarrow> qs1 = [])"
    using fill_pending [OF assms(1)] assms(1) by auto
  then obtain qs1 where
    src: "questionSource ?g1 = map Yield qs1" and
    pend: "mset (questionBuffer ?g1) + mset qs1 = mset (questionBuffer g) + mset qs" and
    dry: "questionBuffer ?g1 = [] \<longrightarrow> qs1 = []"
    by blast
  show ?thesis
  proof (cases "questionBuffer ?g1 = []")
    case True
    with assms(2) have r: "res = None" "g' = ?g1"
      by (auto simp: StartRound_def Let_def split: if_splits)
    from True dry pend have "mset (questionBuffer g) + mset qs = {#}" by simp
    with r src True dry show ?thesis by auto
  next
    case False
    define buf where "buf = questionBuffer ?g1"
    define idx where "idx = shd (rand ?g1) mod length buf"
    from False have lt: "idx < length buf" by (simp add: idx_def buf_def)
    from assms(2) False have r: "res = Some (buf ! idx)"
      "questionBuffer g' = take idx buf @ drop (idx + 1) buf"
      "questionSource g' = questionSource ?g1"
      by (auto simp: StartRound_def Let_def Intn_def idx_def buf_def split: if_splits)
    from lt have "buf = take idx buf @ buf ! idx # drop (idx + 1) buf"
      by (simp add: id_take_nth_drop)
    then have "mset buf = mset (take idx buf @ buf ! idx # drop (idx + 1) buf)" by simp
    then have "mset buf = mset (take idx buf @ drop (idx + 1) buf) + {#buf ! idx#}" by simp
    with pend have "mset (questionBuffer g) + mset qs
        = mset (questionBuffer g') + mset qs1 + {#buf ! idx#}"
      by (simp add: buf_def r(2))
    with r src show ?thesis by auto
  qed
qed

lemma play_shape:
  "questionSource g = map Yield qs \<Longrightarrow>
     \<exists>p k. play g acts = map Some p @ replicate k None
        \<and> mset p \<subseteq># mset (questionBuffer g) + mset qs
        \<and> (0 < k \<longrightarrow> mset p = mset (questionBuffer g) + mset qs)"
proof (induction acts arbitrary: g qs)
  case Nil
  have "play g [] = map Some [] @ replicate 0 None" by simp
  then show ?case by (metis mset.simps(1) empty_le not_gr_zero)
next
  case (Cons a acts)
  show ?case
  proof (cases a)
    case DoRefill
    from fill_pending [OF Cons.prems] obtain qs' where
      s: "questionSource (fillQuestionBuffer g) = map Yield qs'" and
      m: "mset (questionBuffer (fillQuestionBuffer g)) + mset qs' = mset (questionBuffer g) + mset qs"
      by (auto simp: fillQuestionBuffer_def)
    from Cons.IH [OF s, unfolded m] DoRefill show ?thesis by simp
  next
    case DoStartRound
    obtain res g' where sr: "StartRound g = (res, g')" by (cases "StartRound g")
    from StartRound_pending [OF Cons.prems sr] obtain qs' where
      s: "questionSource g' = map Yield qs'" and
      c: "case res of
              None \<Rightarrow> mset (questionBuffer g) + mset qs = {#}
                      \<and> mset (questionBuffer g') + mset qs' = {#}
            | Some q \<Rightarrow> q \<in># mset (questionBuffer g) + mset qs
                      \<and> mset (questionBuffer g') + mset qs'
                          = mset (questionBuffer g) + mset qs - {#q#}"
      by blast
    from Cons.IH [OF s] obtain p k where
      ih: "play g' acts = map Some p @ replicate k None"
        "mset p \<subseteq># mset (questionBuffer g') + mset qs'"
        "0 < k \<longrightarrow> mset p = mset (questionBuffer g') + mset qs'"
      by blast
    have pl: "play g (a # acts) = res # play g' acts" using DoStartRound sr by simp
    show ?thesis
    proof (cases res)
      case None
      with c have e: "mset (questionBuffer g) + mset qs = {#}"
        "mset (questionBuffer g') + mset qs' = {#}" by simp_all
      with ih(2) have "p = []" by simp
      with pl None ih(1) have "play g (a # acts) = map Some [] @ replicate (Suc k) None" by simp
      moreover have "mset [] \<subseteq># mset (questionBuffer g) + mset qs" by simp
      moreover have "0 < Suc k \<longrightarrow> mset [] = mset (questionBuffer g) + mset qs" using e by simp
      ultimately show ?thesis by blast
    next
      case (Some q)
      with c have q: "q \<in># mset (questionBuffer g) + mset qs"
        and r: "mset (questionBuffer g') + mset qs' = mset (questionBuffer g) + mset qs - {#q#}"
        by simp_all
      from pl Some ih(1) have "play g (a # acts) = map Some (q # p) @ replicate k None" by simp
      moreover from ih(2) q r have "mset (q # p) \<subseteq># mset (questionBuffer g) + mset qs"
        by (metis insert_subset_eq_iff mset.simps(2))
      moreover from ih(3) q r have "0 < k \<longrightarrow> mset (q # p) = mset (questionBuffer g) + mset qs"
        by auto
      ultimately show ?thesis by blast
    qed
  qed
qed


lemma NewGame_pending:
  "\<exists>qs'. questionSource (NewGame (map Yield qs) channel seed) = map Yield qs'
      \<and> mset (questionBuffer (NewGame (map Yield qs) channel seed)) + mset qs' = mset qs"
proof -
  let ?g = "\<lparr>questionSource = map Yield qs, questionBuffer = [], CurrentQuestion = None,
        rand = seed, hintCount = 0, hintMask = [], IsPlaying = False, GameChannel = channel,
        QuestionTimer = None, timers = [], nextVotes = fmempty, NextVoteThreshold = 3\<rparr>"
  have "questionSource ?g = map Yield qs" by simp
  from fill_pending [OF this] show ?thesis
    by (auto simp: NewGame_def fillQuestionBuffer_def)
qed

text \<open>
  C5. A game is created over a source that yields four distinct questions A, B, C, D and
  then \<^verbatim>\<open>io.EOF\<close>; the buffer is filled up to 3. Whatever the random draws are and
  whenever the refill goroutines run between the calls, if \<open>StartRound\<close> is called five
  times or more, the first four calls return four distinct questions, which are A, B, C
  and D in some order, and the fifth and every later call return none. And a
  \<open>StartRound\<close> that finds the buffer empty refills it before it answers: it returns
  none exactly when the buffer is still empty after \<open>fillQuestionBufferUnlocked\<close>, and
  the state it then leaves is the refilled one.
\<close>

theorem four_questions_then_none:
  assumes "distinct [A, B, C, D]"
    and "5 \<le> length (play (NewGame [Yield A, Yield B, Yield C, Yield D] channel seed) acts)"
  shows "(\<exists>p. play (NewGame [Yield A, Yield B, Yield C, Yield D] channel seed) acts
            = map Some p
              @ replicate (length (play (NewGame [Yield A, Yield B, Yield C, Yield D] channel seed) acts) - 4) None
          \<and> length p = 4 \<and> distinct p \<and> set p = {A, B, C, D})
       \<and> (questionBuffer g = [] \<longrightarrow>
            (fst (StartRound g) = None \<longleftrightarrow> questionBuffer (fillQuestionBufferUnlocked g) = [])
            \<and> (fst (StartRound g) = None \<longrightarrow> snd (StartRound g) = fillQuestionBufferUnlocked g))"
proof -
  let ?g0 = "NewGame [Yield A, Yield B, Yield C, Yield D] channel seed"
  from NewGame_pending [of "[A, B, C, D]" channel seed] obtain qs' where
    s: "questionSource ?g0 = map Yield qs'" and
    m: "mset (questionBuffer ?g0) + mset qs' = mset [A, B, C, D]"
    by auto
  from play_shape [OF s, of acts, unfolded m] obtain p k where
    pl: "play ?g0 acts = map Some p @ replicate k None" and
    sub: "mset p \<subseteq># mset [A, B, C, D]" and
    all: "0 < k \<longrightarrow> mset p = mset [A, B, C, D]"
    by blast
  from sub have "size (mset p) \<le> size (mset [A, B, C, D])" by (rule size_mset_mono)
  then have le: "length p \<le> 4" by simp
  from pl have len: "length (play ?g0 acts) = length p + k" by simp
  with assms(2) le have "0 < k" by simp
  with all have eq: "mset p = mset [A, B, C, D]" by simp
  from eq have "length p = length [A, B, C, D]" by (rule mset_eq_length)
  then have l4: "length p = 4" by simp
  from eq have "set p = set [A, B, C, D]" by (rule mset_eq_setD)
  then have st: "set p = {A, B, C, D}" by simp
  from eq have "distinct p \<longleftrightarrow> distinct [A, B, C, D]" by (rule mset_eq_imp_distinct_iff)
  with assms(1) have d: "distinct p" by simp
  from len l4 have k: "k = length (play ?g0 acts) - 4" by simp
  have first: "\<exists>p. play ?g0 acts
            = map Some p @ replicate (length (play ?g0 acts) - 4) None
          \<and> length p = 4 \<and> distinct p \<and> set p = {A, B, C, D}"
  proof (intro exI [of _ p] conjI)
    show "play ?g0 acts = map Some p @ replicate (length (play ?g0 acts) - 4) None"
      using pl k by simp
  qed (rule l4 d st)+
  have second: "questionBuffer g = [] \<longrightarrow>
            (fst (StartRound g) = None \<longleftrightarrow> questionBuffer (fillQuestionBufferUnlocked g) = [])
            \<and> (fst (StartRound g) = None \<longrightarrow> snd (StartRound g) = fillQuestionBufferUnlocked g)"
    by (auto simp: StartRound_def Let_def split: prod.splits)
  from first second show ?thesis by blast
qed


theorem four_questions_then_none_witness:
  "distinct [exA, exB, exC, exD]
   \<and> play (NewGame [Yield exA, Yield exB, Yield exC, Yield exD] (runes ''#testchannel'') (1 ## 2 ## sconst 0))
        [DoStartRound, DoRefill, DoStartRound, DoStartRound, DoStartRound, DoStartRound]
       = [Some exB, Some exD, Some exA, Some exC, None]
   \<and> (\<exists>p. [Some exB, Some exD, Some exA, Some exC, None] = map Some p @ replicate 1 None
          \<and> length p = 4 \<and> distinct p \<and> set p = {exA, exB, exC, exD})
   \<and> questionBuffer (exIdle\<lparr>questionSource := [Yield exD]\<rparr>) = []
   \<and> fst (StartRound (exIdle\<lparr>questionSource := [Yield exD]\<rparr>)) \<noteq> None"
proof -
  let ?g0 = "NewGame [Yield exA, Yield exB, Yield exC, Yield exD] (runes ''#testchannel'') (1 ## 2 ## sconst 0)"
  let ?acts = "[DoStartRound, DoRefill, DoStartRound, DoStartRound, DoStartRound, DoStartRound]"
  let ?cold = "exIdle\<lparr>questionSource := [Yield exD]\<rparr>"
  have d: "distinct [exA, exB, exC, exD]"
    by (simp add: exA_def exB_def exC_def exD_def exQuestion_def runes_def)
  have g0: "?g0 = \<lparr>questionSource = [Yield exD], questionBuffer = [exA, exB, exC],
        CurrentQuestion = None, rand = 1 ## 2 ## sconst 0, hintCount = 0, hintMask = [],
        IsPlaying = False, GameChannel = runes ''#testchannel'', QuestionTimer = None, timers = [],
        nextVotes = fmempty, NextVoteThreshold = 3\<rparr>"
    by (simp add: NewGame_def fillQuestionBuffer_def fillQuestionBufferUnlocked.simps)
  have pl: "play ?g0 ?acts = [Some exB, Some exD, Some exA, Some exC, None]"
    unfolding g0
    by (simp add: StartRound_def Intn_def fillQuestionBuffer_def fillQuestionBufferUnlocked.simps)
  then have l: "5 \<le> length (play ?g0 ?acts)" by simp
  have c: "questionBuffer ?cold = []" by (simp add: exIdle_eq)
  have f: "questionBuffer (fillQuestionBufferUnlocked ?cold) \<noteq> []"
    by (simp add: exIdle_eq fillQuestionBufferUnlocked.simps)
  from four_questions_then_none [OF d l, of ?cold] c f pl d
  show ?thesis by simp
qed

end
